theory Spec2Isabelle
  imports Main
begin

section \<open>The xDS client of the gRPC balancer (xds\_client.go)\<close>

text \<open>
  The client keeps one ADS stream to a traffic director. Everything outside the file
  (the gRPC stream, the protobuf codec, the callbacks, the cancellation context) is the
  environment: its answers are read from a script, and every call the client makes on it
  is recorded, in order, as an event. The functions below return the events they produce.
\<close>

subsection \<open>Data\<close>

definition cdsType :: string where
  "cdsType = ''type.googleapis.com/envoy.api.v2.Cluster''"

definition edsType :: string where
  "edsType = ''type.googleapis.com/envoy.api.v2.ClusterLoadAssignment''"

definition grpcHostname :: string where
  "grpcHostname = ''com.googleapis.trafficdirector.grpc_hostname''"

definition endpointRequired :: string where
  "endpointRequired = ''endpoints_required''"

text \<open>\<open>types.Value\<close>, as far as the two requests use it.\<close>

datatype pvalue = StringValue string | BoolValue bool

text \<open>\<open>xdspb.DiscoveryRequest\<close>: node metadata fields, resource names, type URL.\<close>

record discovery_request =
  node_metadata :: "(string \<times> pvalue) list"
  resourceNames :: "string list"
  req_typeUrl :: string

text \<open>\<open>types.Any\<close>: a type URL and the encoded bytes.\<close>

record types_any =
  any_typeUrl :: string
  any_value :: string

text \<open>\<open>xdspb.DiscoveryResponse\<close>, as far as the client reads it.\<close>

record response =
  typeUrl :: string
  resources :: "types_any list"

text \<open>
  The dynamic type of a decoded \<open>adsResp.Message\<close>: the two types the type switch
  names, and every other registered message type (the switch has no default branch).
  The argument stands for the content of the message.
\<close>

datatype message = Cluster string | ClusterLoadAssignment string | OtherMessage string

text \<open>
  \<open>types.UnmarshalAny\<close> into a \<open>types.DynamicAny\<close> belongs to the protobuf
  library; it is a parameter of the model. \<open>None\<close> is its error return.
\<close>

type_synonym codec = "types_any \<Rightarrow> message option"

text \<open>
  The fields of \<open>client\<close> that the stream code reads. \<open>backoff\<close> is the
  \<open>Backoff\<close> method of the \<open>backoff.Strategy\<close>: retry count to duration.
\<close>

record client =
  balancerName :: string
  serviceName :: string
  enableCDS :: bool
  backoff :: "int \<Rightarrow> int"

text \<open>The texts written to \<open>grpclog\<close>, one constructor each.\<close>

datatype log_msg =
    FailedInitialADS       \<comment> \<open>xds: failed to initial ADS streaming RPC due to ...\<close>
  | ZeroResourceInfo       \<comment> \<open>xds: ADS response contains 0 resource info.\<close>
  | CDSInCustomPluginMode  \<comment> \<open>xds: received CDS response in custom plugin mode.\<close>
  | UnmarshalFailed        \<comment> \<open>xds: failed to unmarshal resources due to ...\<close>
  | ExpectingCDSGotEDS     \<comment> \<open>xds: expecting CDS response, got EDS response instead.\<close>
  | ProcessingFailed       \<comment> \<open>xds: processing new ADS message failed due to ...\<close>

text \<open>
  The calls on the environment. A \<open>bool\<close> is the outcome of the call: for
  \<open>OpenStream\<close> and \<open>Send\<close> whether it succeeded, for \<open>NewADS\<close> whether the
  consumer callback returned an error. \<open>Recv None\<close> is a \<open>Recv\<close> that returned an
  error. \<open>CancelAttempt\<close> is the deferred \<open>cancel()\<close> of the attempt's context.
\<close>

datatype event =
    OpenStream bool
  | Send discovery_request bool
  | Recv "response option"
  | NewADS message bool
  | Info log_msg
  | Warning log_msg
  | CancelAttempt
  | NewTimer int
  | TimerFired
  | TimerStop
  | LoseContact

subsection \<open>Requests\<close>

definition newCDSRequest :: "client \<Rightarrow> discovery_request" where
  "newCDSRequest c =
     \<lparr>node_metadata = [(grpcHostname, StringValue (serviceName c))],
      resourceNames = [],
      req_typeUrl = cdsType\<rparr>"

definition newEDSRequest :: "client \<Rightarrow> discovery_request" where
  "newEDSRequest c =
     \<lparr>node_metadata = [(endpointRequired, BoolValue (enableCDS c))],
      resourceNames = [serviceName c],
      req_typeUrl = edsType\<rparr>"

subsection \<open>One stream attempt: adsCallAttempt\<close>

text \<open>
  What the environment does during one attempt: whether opening the stream fails, whether
  each of the two sends fails, and the responses that \<open>Recv\<close> delivers before it returns
  an error. Each response comes with the answer the consumer callback gives if the
  response gets as far as \<open>newADS\<close> (\<open>True\<close>: the callback returns an error).
\<close>

record attempt_env =
  stream_err :: bool
  send_cds_err :: bool
  send_eds_err :: bool
  recvs :: "(response \<times> bool) list"

definition emit :: "event list \<Rightarrow> bool \<times> event list \<Rightarrow> bool \<times> event list" where
  "emit evs r = (fst r, evs @ snd r)"

text \<open>
  One pass through the body of the receive loop after \<open>Recv\<close> has returned a response
  (lines 219 to 248): either the function returns, or the loop goes round again with a new
  value of \<open>expectCDS\<close>. In both cases \<open>firstRespReceived\<close> has been set (line 219).
\<close>

datatype recv_result = Return "event list" | Again bool "event list"

definition recv_body :: "codec \<Rightarrow> client \<Rightarrow> bool \<Rightarrow> response \<Rightarrow> bool \<Rightarrow> recv_result" where
  "recv_body um c expectCDS resp cb_err =
     (if length (resources resp) < 1 then
        Return [Recv (Some resp), Warning ZeroResourceInfo]
      else if typeUrl resp = cdsType \<and> \<not> enableCDS c then
        Return [Recv (Some resp), Warning CDSInCustomPluginMode]
      else
        (case um (resources resp ! 0) of
           None \<Rightarrow> Return [Recv (Some resp), Warning UnmarshalFailed]
         | Some (Cluster x) \<Rightarrow>
             (if cb_err then
                Return [Recv (Some resp), NewADS (Cluster x) True, Warning ProcessingFailed]
              else
                Again False [Recv (Some resp), NewADS (Cluster x) False])
         | Some (ClusterLoadAssignment x) \<Rightarrow>
             (if expectCDS then
                Return [Recv (Some resp), Warning ExpectingCDSGotEDS]
              else if cb_err then
                Return [Recv (Some resp), NewADS (ClusterLoadAssignment x) True,
                        Warning ProcessingFailed]
              else
                Again expectCDS [Recv (Some resp), NewADS (ClusterLoadAssignment x) False])
         | Some (OtherMessage x) \<Rightarrow>
             (if cb_err then
                Return [Recv (Some resp), NewADS (OtherMessage x) True, Warning ProcessingFailed]
              else
                Again expectCDS [Recv (Some resp), NewADS (OtherMessage x) False])))"

text \<open>
  The receive loop (lines 213 to 249). \<open>expectCDS\<close> and \<open>firstRespReceived\<close> are the two
  local variables at the head of the loop; the result is the returned
  \<open>firstRespReceived\<close> and the events of the loop. When the script of responses is used
  up, \<open>Recv\<close> returns an error.
\<close>

fun recv_loop :: "codec \<Rightarrow> client \<Rightarrow> bool \<Rightarrow> bool \<Rightarrow> (response \<times> bool) list \<Rightarrow> bool \<times> event list" where
  "recv_loop um c expectCDS firstRespReceived [] = (firstRespReceived, [Recv None])"
| "recv_loop um c expectCDS firstRespReceived ((resp, cb_err) # rest) =
     (case recv_body um c expectCDS resp cb_err of
        Return evs \<Rightarrow> (True, evs)
      | Again expectCDS' evs \<Rightarrow> emit evs (recv_loop um c expectCDS' True rest))"

text \<open>The values of \<open>expectCDS\<close> at the successive heads of the receive loop.\<close>

fun recv_flags :: "codec \<Rightarrow> client \<Rightarrow> bool \<Rightarrow> (response \<times> bool) list \<Rightarrow> bool list" where
  "recv_flags um c expectCDS [] = [expectCDS]"
| "recv_flags um c expectCDS ((resp, cb_err) # rest) =
     expectCDS #
     (case recv_body um c expectCDS resp cb_err of
        Return evs \<Rightarrow> []
      | Again expectCDS' evs \<Rightarrow> recv_flags um c expectCDS' rest)"

definition adsCallAttempt :: "codec \<Rightarrow> client \<Rightarrow> attempt_env \<Rightarrow> bool \<times> event list" where
  "adsCallAttempt um c ae =
     (if stream_err ae then
        (False, [OpenStream False, Info FailedInitialADS, CancelAttempt])
      else if enableCDS c \<and> send_cds_err ae then
        (False, [OpenStream True, Send (newCDSRequest c) False, CancelAttempt])
      else
        (let sent = (if enableCDS c then [Send (newCDSRequest c) True] else []) in
         if send_eds_err ae then
           (False, OpenStream True # sent @ [Send (newEDSRequest c) False, CancelAttempt])
         else
           (let r = recv_loop um c (enableCDS c) False (recvs ae) in
            (fst r, OpenStream True # sent @ [Send (newEDSRequest c) True] @ snd r
                      @ [CancelAttempt]))))"

subsection \<open>The session loop: makeADSCall\<close>

text \<open>
  \<open>retryCount\<close> is a Go \<open>int\<close>; \<open>retryCount++\<close> wraps at 64 bits.
\<close>

definition int_incr :: "int \<Rightarrow> int" where
  "int_incr n = (if n = 2 ^ 63 - 1 then - (2 ^ 63) else n + 1)"

record loop_state =
  retryCount :: int
  doRetry :: bool

text \<open>
  What the environment does during one iteration of the loop: whether the \<open>select\<close> at
  the top finds the context done, whether the \<open>select\<close> on the backoff timer takes the
  \<open>Done\<close> case (it is consulted only when the loop waits), and the attempt.
\<close>

record iter_env =
  ctx_done_at_top :: bool
  ctx_done_in_wait :: bool
  attempt :: attempt_env

datatype body_result = Returned "event list" | Continued loop_state "event list"

text \<open>The body of the \<open>for\<close> loop (lines 165 to 189).\<close>

definition loop_body :: "codec \<Rightarrow> client \<Rightarrow> iter_env \<Rightarrow> loop_state \<Rightarrow> body_result" where
  "loop_body um c ie s =
     (if ctx_done_at_top ie then Returned []
      else if doRetry s \<and> ctx_done_in_wait ie then
        Returned [NewTimer (backoff c (retryCount s)), TimerStop]
      else
        (let waited = (if doRetry s then [NewTimer (backoff c (retryCount s)), TimerFired] else []);
             retryCount1 = (if doRetry s then int_incr (retryCount s) else retryCount s);
             r = adsCallAttempt um c (attempt ie);
             s' = (if fst r then \<lparr>retryCount = 0, doRetry = False\<rparr>
                   else \<lparr>retryCount = retryCount1, doRetry = True\<rparr>)
         in Continued s' (waited @ snd r @ [LoseContact])))"

text \<open>
  The loop runs until the context is cancelled. It is run here on a finite script, one
  entry for each iteration: the result is the events and, when the script ends before the
  loop has returned, the state at the head of the next iteration.
\<close>

fun makeADSCall_from :: "codec \<Rightarrow> client \<Rightarrow> loop_state \<Rightarrow> iter_env list \<Rightarrow> event list \<times> loop_state option" where
  "makeADSCall_from um c s [] = ([], Some s)"
| "makeADSCall_from um c s (ie # rest) =
     (case loop_body um c ie s of
        Returned evs \<Rightarrow> (evs, None)
      | Continued s' evs \<Rightarrow>
          (let r = makeADSCall_from um c s' rest in (evs @ fst r, snd r)))"

text \<open>The values of \<open>retryCount\<close> and \<open>doRetry\<close> before the loop (lines 161 and 162).\<close>

definition init_loop_state :: loop_state where
  "init_loop_state = \<lparr>retryCount = 0, doRetry = False\<rparr>"

definition makeADSCall :: "codec \<Rightarrow> client \<Rightarrow> iter_env list \<Rightarrow> event list \<times> loop_state option" where
  "makeADSCall um c envs = makeADSCall_from um c init_loop_state envs"

text \<open>The loop states at the end of each iteration that ran an attempt, in order.\<close>

fun loop_states :: "codec \<Rightarrow> client \<Rightarrow> loop_state \<Rightarrow> iter_env list \<Rightarrow> loop_state list" where
  "loop_states um c s [] = []"
| "loop_states um c s (ie # rest) =
     (case loop_body um c ie s of
        Returned evs \<Rightarrow> []
      | Continued s' evs \<Rightarrow> s' # loop_states um c s' rest)"

subsection \<open>dial and close\<close>

text \<open>
  \<open>dial\<close> runs on the task that calls \<open>run\<close>, \<open>close\<close> on another one. Each task is
  a sequence of steps, and every step reads or writes the shared state (the context, the
  mutex \<open>c.mu\<close>, the field \<open>c.cc\<close>, the \<open>ClientConn\<close> that \<open>grpc.DialContext\<close>
  returns) at most once: a test and the action that depends on it are two steps, so the
  other task can move between them unless the mutex keeps it out. The program points name
  what the task does next.
\<close>

datatype dial_pc =
    D_call      \<comment> \<open>line 109: \<open>grpc.DialContext\<close>\<close>
  | D_lock      \<comment> \<open>line 115: \<open>c.mu.Lock()\<close>\<close>
  | D_select    \<comment> \<open>lines 116, 117 and 119: the \<open>select\<close> reads \<open>c.ctx.Done()\<close>\<close>
  | D_close     \<comment> \<open>line 118: \<open>cc.Close()\<close>, the context was found done\<close>
  | D_assign    \<comment> \<open>line 121: \<open>c.cc = cc\<close>, the context was found live\<close>
  | D_unlock    \<comment> \<open>line 123: \<open>c.mu.Unlock()\<close>\<close>
  | D_done      \<comment> \<open>\<open>dial\<close> has returned\<close>
  | D_fatal     \<comment> \<open>line 113: \<open>grpclog.Fatalf\<close>, which ends the process\<close>

datatype close_pc =
    K_cancel    \<comment> \<open>line 79: \<open>c.cancel()\<close>\<close>
  | K_lock      \<comment> \<open>line 80: \<open>c.mu.Lock()\<close>\<close>
  | K_check     \<comment> \<open>line 81: the test \<open>c.cc != nil\<close>\<close>
  | K_close     \<comment> \<open>line 82: \<open>c.cc.Close()\<close>, \<open>c.cc\<close> was found set\<close>
  | K_unlock    \<comment> \<open>line 84: \<open>c.mu.Unlock()\<close>\<close>
  | K_cleanup   \<comment> \<open>line 85: \<open>c.cleanup()\<close>\<close>
  | K_done      \<comment> \<open>\<open>close\<close> has returned\<close>

datatype task = DialTask | CloseTask

text \<open>
  The shared state. \<open>created\<close>: \<open>DialContext\<close> has returned a \<open>ClientConn\<close>;
  \<open>cc_stored\<close>: \<open>c.cc\<close> is not nil; \<open>closes\<close>: how often \<open>Close\<close> has been called
  on the \<open>ClientConn\<close>; \<open>cleanups\<close>: how often \<open>c.cleanup\<close> has been called.
\<close>

record sys =
  ctx_done :: bool
  mu_locked :: bool
  created :: bool
  cc_stored :: bool
  closes :: nat
  cleanups :: nat
  dial_at :: dial_pc
  close_at :: close_pc

definition init_sys :: sys where
  "init_sys = \<lparr>ctx_done = False, mu_locked = False, created = False, cc_stored = False,
               closes = 0, cleanups = 0, dial_at = D_call, close_at = K_cancel\<rparr>"

text \<open>
  One step of \<open>dial\<close> (lines 109 to 123). \<open>dial_fails\<close> is the outcome of
  \<open>grpc.DialContext\<close>. \<open>None\<close>: the task cannot move (it waits for the mutex, or it
  has returned).
\<close>

definition dial_step :: "bool \<Rightarrow> sys \<Rightarrow> sys option" where
  "dial_step dial_fails s =
     (case dial_at s of
        D_call \<Rightarrow>
          (if dial_fails then Some (s\<lparr>dial_at := D_fatal\<rparr>)
           else Some (s\<lparr>created := True, dial_at := D_lock\<rparr>))
      | D_lock \<Rightarrow>
          (if mu_locked s then None else Some (s\<lparr>mu_locked := True, dial_at := D_select\<rparr>))
      | D_select \<Rightarrow>
          (if ctx_done s then Some (s\<lparr>dial_at := D_close\<rparr>)
           else Some (s\<lparr>dial_at := D_assign\<rparr>))
      | D_close \<Rightarrow> Some (s\<lparr>closes := closes s + 1, dial_at := D_unlock\<rparr>)
      | D_assign \<Rightarrow> Some (s\<lparr>cc_stored := True, dial_at := D_unlock\<rparr>)
      | D_unlock \<Rightarrow> Some (s\<lparr>mu_locked := False, dial_at := D_done\<rparr>)
      | D_done \<Rightarrow> None
      | D_fatal \<Rightarrow> None)"

text \<open>One step of \<open>close\<close> (lines 79 to 85).\<close>

definition close_step :: "sys \<Rightarrow> sys option" where
  "close_step s =
     (case close_at s of
        K_cancel \<Rightarrow> Some (s\<lparr>ctx_done := True, close_at := K_lock\<rparr>)
      | K_lock \<Rightarrow>
          (if mu_locked s then None else Some (s\<lparr>mu_locked := True, close_at := K_check\<rparr>))
      | K_check \<Rightarrow>
          (if cc_stored s then Some (s\<lparr>close_at := K_close\<rparr>)
           else Some (s\<lparr>close_at := K_unlock\<rparr>))
      | K_close \<Rightarrow> Some (s\<lparr>closes := closes s + 1, close_at := K_unlock\<rparr>)
      | K_unlock \<Rightarrow> Some (s\<lparr>mu_locked := False, close_at := K_cleanup\<rparr>)
      | K_cleanup \<Rightarrow> Some (s\<lparr>cleanups := cleanups s + 1, close_at := K_done\<rparr>)
      | K_done \<Rightarrow> None)"

text \<open>A step of either task; after \<open>Fatalf\<close> the process is gone and nothing moves.\<close>

definition step :: "bool \<Rightarrow> task \<Rightarrow> sys \<Rightarrow> sys option" where
  "step dial_fails t s =
     (if dial_at s = D_fatal then None
      else (case t of DialTask \<Rightarrow> dial_step dial_fails s | CloseTask \<Rightarrow> close_step s))"

text \<open>
  An interleaving is the list of the tasks in the order in which they take their steps.
  \<open>exec\<close> is \<open>None\<close> when the list asks a task to move that cannot.
\<close>

fun exec :: "bool \<Rightarrow> task list \<Rightarrow> sys \<Rightarrow> sys option" where
  "exec dial_fails [] s = Some s"
| "exec dial_fails (t # ts) s =
     (case step dial_fails t s of None \<Rightarrow> None | Some s' \<Rightarrow> exec dial_fails ts s')"

text \<open>
  The invariant of the two tasks. \<open>dial_holds\<close> and \<open>close_holds\<close>: the task is between
  its \<open>Lock\<close> and its \<open>Unlock\<close>.
\<close>

definition past_select :: "sys \<Rightarrow> bool" where
  "past_select s = (dial_at s = D_unlock \<or> dial_at s = D_done)"

definition past_check :: "sys \<Rightarrow> bool" where
  "past_check s = (close_at s = K_unlock \<or> close_at s = K_cleanup \<or> close_at s = K_done)"

definition dial_holds :: "sys \<Rightarrow> bool" where
  "dial_holds s = (dial_at s = D_select \<or> dial_at s = D_close \<or> dial_at s = D_assign
                   \<or> dial_at s = D_unlock)"

definition close_holds :: "sys \<Rightarrow> bool" where
  "close_holds s = (close_at s = K_check \<or> close_at s = K_close \<or> close_at s = K_unlock)"

definition sys_inv :: "sys \<Rightarrow> bool" where
  "sys_inv s =
     (mu_locked s = (dial_holds s \<or> close_holds s)
      \<and> \<not> (dial_holds s \<and> close_holds s)
      \<and> ctx_done s = (close_at s \<noteq> K_cancel)
      \<and> created s = (dial_at s \<noteq> D_call \<and> dial_at s \<noteq> D_fatal)
      \<and> (cc_stored s \<longrightarrow> past_select s)
      \<and> (dial_at s = D_close \<longrightarrow> ctx_done s)
      \<and> (dial_at s = D_assign \<longrightarrow> close_at s = K_cancel \<or> close_at s = K_lock)
      \<and> (close_at s = K_close \<longrightarrow> cc_stored s)
      \<and> closes s = (if past_select s \<and> (\<not> cc_stored s \<or> past_check s) then 1 else 0))"

subsection \<open>Properties of event lists\<close>

text \<open>
  The message that the loop would decode from a response: that of its first resource;
  \<open>None\<close> when the response has no resource or the codec fails.
\<close>

definition decode_first :: "codec \<Rightarrow> response \<Rightarrow> message option" where
  "decode_first um resp = (if length (resources resp) < 1 then None else um (resources resp ! 0))"

definition is_open :: "event \<Rightarrow> bool" where
  "is_open e = (e = OpenStream True \<or> e = OpenStream False)"

text \<open>
  Every end of an attempt (\<open>CancelAttempt\<close>) is followed at once by one \<open>LoseContact\<close>,
  and \<open>LoseContact\<close> occurs nowhere else.
\<close>

fun lost_contact_once_per_attempt :: "event list \<Rightarrow> bool" where
  "lost_contact_once_per_attempt [] = True"
| "lost_contact_once_per_attempt (e # es) =
     (if e = CancelAttempt then
        (case es of [] \<Rightarrow> False
         | e' # es' \<Rightarrow> e' = LoseContact \<and> lost_contact_once_per_attempt es')
      else e \<noteq> LoseContact \<and> lost_contact_once_per_attempt es)"

text \<open>
  The reading of the specification's sentence on backoff: every attempt after the first
  event of the list starts right after the backoff timer has fired.
\<close>

fun backoff_before_every_retry :: "event list \<Rightarrow> bool" where
  "backoff_before_every_retry [] = True"
| "backoff_before_every_retry [e] = True"
| "backoff_before_every_retry (e # e' # es) =
     (if is_open e' then e = TimerFired \<and> backoff_before_every_retry (e' # es)
      else backoff_before_every_retry (e' # es))"

subsection \<open>Example inputs\<close>

definition ldsType :: string where
  "ldsType = ''type.googleapis.com/envoy.api.v2.Listener''"

text \<open>A codec that knows three message types and takes the bytes as the content.\<close>

definition ex_codec :: codec where
  "ex_codec a =
     (if any_typeUrl a = cdsType then Some (Cluster (any_value a))
      else if any_typeUrl a = edsType then Some (ClusterLoadAssignment (any_value a))
      else if any_typeUrl a = ldsType then Some (OtherMessage (any_value a))
      else None)"

definition ex_client :: "bool \<Rightarrow> client" where
  "ex_client cds = \<lparr>balancerName = ''td'', serviceName = ''svc'', enableCDS = cds,
                     backoff = (\<lambda>n. 1000 * (n + 1))\<rparr>"

definition ex_cds_resp :: response where
  "ex_cds_resp = \<lparr>typeUrl = cdsType, resources = [\<lparr>any_typeUrl = cdsType, any_value = ''c1''\<rparr>]\<rparr>"

definition ex_eds_resp :: response where
  "ex_eds_resp = \<lparr>typeUrl = edsType, resources = [\<lparr>any_typeUrl = edsType, any_value = ''e1''\<rparr>]\<rparr>"

definition ex_lds_resp :: response where
  "ex_lds_resp = \<lparr>typeUrl = ldsType, resources = [\<lparr>any_typeUrl = ldsType, any_value = ''l1''\<rparr>]\<rparr>"

definition ex_empty_resp :: response where
  "ex_empty_resp = \<lparr>typeUrl = edsType, resources = []\<rparr>"

text \<open>An attempt in which the stream opens, both sends succeed and \<open>rs\<close> arrives.\<close>

definition ex_attempt :: "(response \<times> bool) list \<Rightarrow> attempt_env" where
  "ex_attempt rs = \<lparr>stream_err = False, send_cds_err = False, send_eds_err = False, recvs = rs\<rparr>"

text \<open>An iteration of the session loop that is not cancelled.\<close>

definition ex_iter :: "(response \<times> bool) list \<Rightarrow> iter_env" where
  "ex_iter rs = \<lparr>ctx_done_at_top = False, ctx_done_in_wait = False, attempt = ex_attempt rs\<rparr>"

section \<open>Lemmas\<close>

subsection \<open>The receive loop\<close>

lemma fst_emit [simp]: "fst (emit evs r) = fst r"
  by (simp add: emit_def)

lemma snd_emit [simp]: "snd (emit evs r) = evs @ snd r"
  by (simp add: emit_def)

lemma recv_loop_fst: "fst (recv_loop um c e f rs) = (f \<or> rs \<noteq> [])"
  by (induction rs arbitrary: e f) (auto split: recv_result.splits)

lemma recv_loop_events:
  "ev \<in> set (snd (recv_loop um c e f rs)) \<Longrightarrow>
   (\<exists>r. ev = Recv r) \<or> (\<exists>m b. ev = NewADS m b) \<or> (\<exists>l. ev = Warning l)"
proof (induction rs arbitrary: e f)
  case Nil
  then show ?case by simp
next
  case (Cons p rs)
  obtain r v where p: "p = (r, v)" by (cases p)
  show ?case using Cons.prems Cons.IH unfolding p
    by (auto simp: recv_body_def split: option.splits message.splits if_splits)
qed

lemma recv_loop_no_cancel:
  "CancelAttempt \<notin> set (snd (recv_loop um c e f rs))
   \<and> LoseContact \<notin> set (snd (recv_loop um c e f rs))"
  using recv_loop_events[of _ um c e f rs] by blast

lemma recv_loop_no_open: "filter is_open (snd (recv_loop um c e f rs)) = []"
  using recv_loop_events[of _ um c e f rs] by (auto simp: filter_empty_conv is_open_def)

lemma recv_loop_some_recv:
  "(\<exists>r. Recv (Some r) \<in> set (snd (recv_loop um c e f rs))) = (rs \<noteq> [])"
proof (cases rs)
  case Nil
  then show ?thesis by simp
next
  case (Cons p rest)
  obtain r v where "p = (r, v)" by (cases p)
  with Cons have "Recv (Some r) \<in> set (snd (recv_loop um c e f rs))"
    by (auto simp: recv_body_def split: option.splits message.splits)
  with Cons show ?thesis by blast
qed

lemma recv_body_events:
  "recv_body um c e r v = Return evs \<or> recv_body um c e r v = Again e' evs \<Longrightarrow>
   Recv None \<notin> set evs \<and> evs \<noteq> []"
  by (auto simp: recv_body_def split: option.splits message.splits if_splits)

lemma recv_body_flag:
  "recv_body um c e resp v = Again e' evs \<Longrightarrow> e' \<longrightarrow> e"
  by (auto simp: recv_body_def split: option.splits message.splits if_splits)

text \<open>While \<open>expectCDS\<close> holds and no \<open>Cluster\<close> is decoded, the loop stops at the
  first \<open>ClusterLoadAssignment\<close> at the latest.\<close>

lemma recv_loop_awaiting:
  assumes "\<forall>p \<in> set pre. \<forall>y. decode_first um (fst p) \<noteq> Some (Cluster y)"
    and "decode_first um resp = Some (ClusterLoadAssignment x)"
  shows "recv_loop um c True f (pre @ (resp, v) # rest) = recv_loop um c True f (pre @ [(resp, v)])
       \<and> (\<forall>y b. NewADS (ClusterLoadAssignment y) b
                   \<notin> set (snd (recv_loop um c True f (pre @ [(resp, v)]))))
       \<and> Recv None \<notin> set (snd (recv_loop um c True f (pre @ [(resp, v)])))"
  using assms
proof (induction pre arbitrary: f)
  case Nil
  then show ?case
    by (auto simp: recv_body_def decode_first_def split: if_splits)
next
  case (Cons p pre)
  obtain r b where p: "p = (r, b)" by (cases p)
  from Cons.prems have nc: "\<forall>y. decode_first um r \<noteq> Some (Cluster y)"
    and rest: "\<forall>p \<in> set pre. \<forall>y. decode_first um (fst p) \<noteq> Some (Cluster y)"
    by (auto simp: p)
  note IH = Cons.IH[OF rest Cons.prems(2), of True]
  show ?case using nc IH unfolding p
    by (auto simp: recv_body_def decode_first_def split: option.splits message.splits if_splits)
qed

text \<open>Once \<open>expectCDS\<close> is false, the loop never reports a phase violation.\<close>

lemma recv_loop_ready_no_violation:
  "Warning ExpectingCDSGotEDS \<notin> set (snd (recv_loop um c False f rs))"
proof (induction rs arbitrary: f)
  case Nil
  show ?case by simp
next
  case (Cons p rs)
  obtain r v where p: "p = (r, v)" by (cases p)
  show ?case using Cons.IH unfolding p
    by (auto simp: recv_body_def split: option.splits message.splits if_splits)
qed

lemma recv_loop_after_cluster:
  "snd (recv_loop um c e f rs) = xs @ NewADS (Cluster x) b # ys \<Longrightarrow>
   Warning ExpectingCDSGotEDS \<notin> set ys"
proof (induction rs arbitrary: e f xs)
  case Nil
  then show ?case by (auto simp: Cons_eq_append_conv)
next
  case (Cons p rs)
  obtain r v where p: "p = (r, v)" by (cases p)
  show ?case using Cons.prems Cons.IH recv_loop_ready_no_violation[of um c True rs] unfolding p
    by (auto simp: recv_body_def Cons_eq_append_conv split: option.splits message.splits if_splits)
qed

lemma recv_flags_ready: "set (recv_flags um c False rs) \<subseteq> {False}"
proof (induction rs)
  case Nil
  show ?case by simp
next
  case (Cons p rs)
  obtain r v where p: "p = (r, v)" by (cases p)
  show ?case
  proof (cases "recv_body um c False r v")
    case (Return evs)
    then show ?thesis by (simp add: p)
  next
    case (Again e' evs)
    with recv_body_flag[of um c False r v e' evs] have "\<not> e'" by simp
    with Again Cons.IH show ?thesis by (simp add: p)
  qed
qed

lemma recv_flags_mono:
  "i \<le> j \<Longrightarrow> j < length (recv_flags um c e rs) \<Longrightarrow>
   recv_flags um c e rs ! j \<Longrightarrow> recv_flags um c e rs ! i"
proof (induction rs arbitrary: e i j)
  case Nil
  then show ?case by simp
next
  case (Cons p rs)
  obtain r v where p: "p = (r, v)" by (cases p)
  show ?case
  proof (cases e)
    case False
    have "recv_flags um c e (p # rs) ! j \<in> set (recv_flags um c e (p # rs))"
      using Cons.prems(2) nth_mem by blast
    with recv_flags_ready[of um c "p # rs"] False Cons.prems(3) show ?thesis by auto
  next
    case True
    show ?thesis
    proof (cases i)
      case 0
      then show ?thesis using True by (simp add: p)
    next
      case (Suc i')
      then obtain j' where j: "j = Suc j'" using Cons.prems(1) by (cases j) auto
      show ?thesis using Cons.prems Cons.IH[of i' j'] unfolding p Suc j
        by (auto split: recv_result.splits)
    qed
  qed
qed

text \<open>A loop that gets to the \<open>Recv\<close> after \<open>pre\<close> stops at an empty response that
  follows \<open>pre\<close>.\<close>

lemma recv_loop_reaches_empty:
  assumes "resources resp = []" and "Recv None \<in> set (snd (recv_loop um c e f pre))"
  shows "recv_loop um c e f (pre @ (resp, v) # rest) =
           (True, butlast (snd (recv_loop um c e f pre))
                  @ [Recv (Some resp), Warning ZeroResourceInfo])
       \<and> snd (recv_loop um c e f pre) = butlast (snd (recv_loop um c e f pre)) @ [Recv None]"
  using assms(2)
proof (induction pre arbitrary: e f)
  case Nil
  then show ?case using assms(1) by (simp add: recv_body_def)
next
  case (Cons p pre)
  obtain r b where p: "p = (r, b)" by (cases p)
  show ?case
  proof (cases "recv_body um c e r b")
    case (Return evs)
    with recv_body_events[of um c e r b evs] Cons.prems show ?thesis by (simp add: p)
  next
    case (Again e' evs)
    from recv_body_events[of um c e r b evs e'] Again
    have evs: "Recv None \<notin> set evs" by simp
    with Cons.prems Again have in_rec: "Recv None \<in> set (snd (recv_loop um c e' True pre))"
      by (simp add: p)
    then have ne: "snd (recv_loop um c e' True pre) \<noteq> []" by auto
    from Cons.IH[OF in_rec] Again ne show ?thesis
      by (simp add: p emit_def butlast_append)
  qed
qed

subsection \<open>The attempt and the session loop\<close>

lemma adsCallAttempt_shape:
  "\<exists>mid. snd (adsCallAttempt um c ae) = mid @ [CancelAttempt]
     \<and> CancelAttempt \<notin> set mid \<and> LoseContact \<notin> set mid
     \<and> length (filter is_open mid) = 1"
  using recv_loop_no_cancel[of um c "enableCDS c" False "recvs ae"]
        recv_loop_no_open[of um c "enableCDS c" False "recvs ae"]
  by (auto simp: adsCallAttempt_def Let_def is_open_def)

lemma adsCallAttempt_after_cluster:
  assumes "snd (adsCallAttempt um c ae) = xs @ NewADS (Cluster x) b # ys"
  shows "Warning ExpectingCDSGotEDS \<notin> set ys"
proof -
  let ?r = "recv_loop um c (enableCDS c) False (recvs ae)"
  let ?pre = "OpenStream True # (if enableCDS c then [Send (newCDSRequest c) True] else [])
        @ [Send (newEDSRequest c) True]"
  have "\<not> stream_err ae" "\<not> (enableCDS c \<and> send_cds_err ae)" "\<not> send_eds_err ae"
    using assms by (auto simp: adsCallAttempt_def Let_def Cons_eq_append_conv split: if_splits)
  then have "snd (adsCallAttempt um c ae) = ?pre @ snd ?r @ [CancelAttempt]"
    by (auto simp: adsCallAttempt_def Let_def)
  with assms have eq: "?pre @ snd ?r @ [CancelAttempt] = xs @ NewADS (Cluster x) b # ys"
    by simp
  have "\<exists>xs' ys'. snd ?r = xs' @ NewADS (Cluster x) b # ys' \<and> ys = ys' @ [CancelAttempt]"
    using eq
    by (auto simp: append_eq_append_conv2 Cons_eq_append_conv append_eq_Cons_conv split: if_splits)
  then obtain xs' ys' where "snd ?r = xs' @ NewADS (Cluster x) b # ys'" "ys = ys' @ [CancelAttempt]"
    by blast
  with recv_loop_after_cluster[of um c "enableCDS c" False "recvs ae" xs' x b ys']
  show ?thesis by simp
qed

lemma lost_contact_skip:
  "CancelAttempt \<notin> set xs \<Longrightarrow> LoseContact \<notin> set xs \<Longrightarrow>
   lost_contact_once_per_attempt (xs @ es) = lost_contact_once_per_attempt es"
  by (induction xs) auto

lemma loop_body_Continued:
  assumes "loop_body um c ie s = Continued s' evs"
  shows "\<exists>pre. evs = pre @ [CancelAttempt, LoseContact]
     \<and> CancelAttempt \<notin> set pre \<and> LoseContact \<notin> set pre
     \<and> length (filter is_open pre) = 1"
proof -
  obtain mid where mid: "snd (adsCallAttempt um c (attempt ie)) = mid @ [CancelAttempt]"
    "CancelAttempt \<notin> set mid" "LoseContact \<notin> set mid" "length (filter is_open mid) = 1"
    using adsCallAttempt_shape by blast
  let ?w = "if doRetry s then [NewTimer (backoff c (retryCount s)), TimerFired] else []"
  have "evs = (?w @ mid) @ [CancelAttempt, LoseContact]"
    using assms mid(1) by (auto simp: loop_body_def Let_def split: if_splits)
  moreover have "CancelAttempt \<notin> set (?w @ mid)" "LoseContact \<notin> set (?w @ mid)"
    "length (filter is_open (?w @ mid)) = 1"
    using mid by (auto simp: is_open_def)
  ultimately show ?thesis by blast
qed

lemma loop_body_Returned:
  assumes "loop_body um c ie s = Returned evs"
  shows "CancelAttempt \<notin> set evs \<and> LoseContact \<notin> set evs \<and> filter is_open evs = []"
  using assms by (auto simp: loop_body_def Let_def is_open_def split: if_splits)

lemma makeADSCall_from_lost_contact:
  "lost_contact_once_per_attempt (fst (makeADSCall_from um c s envs))
   \<and> count_list (fst (makeADSCall_from um c s envs)) LoseContact
       = length (filter is_open (fst (makeADSCall_from um c s envs)))"
proof (induction envs arbitrary: s)
  case Nil
  show ?case by simp
next
  case (Cons ie envs)
  show ?case
  proof (cases "loop_body um c ie s")
    case (Returned evs)
    note r = loop_body_Returned[OF Returned]
    have "lost_contact_once_per_attempt (evs @ [])"
      using r by (subst lost_contact_skip) auto
    moreover have "count_list evs LoseContact = 0"
      using r by (simp add: count_list_0_iff)
    ultimately show ?thesis using Returned r by simp
  next
    case (Continued s' evs)
    from loop_body_Continued[OF this] obtain pre where
      evs: "evs = pre @ [CancelAttempt, LoseContact]"
      and nc: "CancelAttempt \<notin> set pre" "LoseContact \<notin> set pre"
      and op: "length (filter is_open pre) = 1"
      by blast
    let ?rest = "fst (makeADSCall_from um c s' envs)"
    have "lost_contact_once_per_attempt (pre @ [CancelAttempt, LoseContact] @ ?rest)
            = lost_contact_once_per_attempt ?rest"
      using nc by (simp add: lost_contact_skip)
    then have "lost_contact_once_per_attempt (evs @ ?rest) = lost_contact_once_per_attempt ?rest"
      by (simp add: evs)
    moreover have "count_list pre LoseContact = 0"
      using nc(2) by (simp only: count_list_0_iff not_False_eq_True)
    then have "count_list (evs @ ?rest) LoseContact = 1 + count_list ?rest LoseContact"
      by (simp add: evs)
    moreover have "length (filter is_open (evs @ ?rest)) = 1 + length (filter is_open ?rest)"
      using op by (simp add: evs is_open_def)
    ultimately show ?thesis using Continued Cons.IH[of s'] by (simp add: Let_def)
  qed
qed

lemma loop_body_retryCount:
  assumes "loop_body um c ie s = Continued s' evs"
    and "0 \<le> retryCount s" and "retryCount s < 2 ^ 63 - 1"
  shows "(fst (adsCallAttempt um c (attempt ie)) \<longrightarrow> retryCount s' = 0)
       \<and> (\<not> fst (adsCallAttempt um c (attempt ie)) \<longrightarrow> retryCount s \<le> retryCount s')
       \<and> 0 \<le> retryCount s' \<and> retryCount s' \<le> retryCount s + 1"
  using assms by (auto simp: loop_body_def Let_def int_incr_def split: if_splits)

lemma loop_states_retryCount:
  assumes "0 \<le> retryCount s" and "retryCount s + int (length envs) < 2 ^ 63"
    and "i < length (loop_states um c s envs)"
  shows "(fst (adsCallAttempt um c (attempt (envs ! i))) \<longrightarrow>
            retryCount (loop_states um c s envs ! i) = 0)
       \<and> (\<not> fst (adsCallAttempt um c (attempt (envs ! i))) \<longrightarrow>
            retryCount ((s # loop_states um c s envs) ! i)
              \<le> retryCount (loop_states um c s envs ! i))"
  using assms
proof (induction envs arbitrary: s i)
  case Nil
  then show ?case by simp
next
  case (Cons ie envs)
  show ?case
  proof (cases "loop_body um c ie s")
    case (Returned evs)
    with Cons.prems(3) show ?thesis by simp
  next
    case (Continued s' evs)
    have lt: "retryCount s < 2 ^ 63 - 1" using Cons.prems(2) by simp
    note step = loop_body_retryCount[OF Continued Cons.prems(1) lt]
    show ?thesis
    proof (cases i)
      case 0
      with step Continued show ?thesis by simp
    next
      case (Suc i')
      have "0 \<le> retryCount s'" using step by simp
      moreover have "retryCount s' + int (length envs) < 2 ^ 63"
        using step Cons.prems(2) by simp
      moreover have "i' < length (loop_states um c s' envs)"
        using Cons.prems(3) Continued Suc by simp
      ultimately show ?thesis using Cons.IH[of s' i'] Continued Suc by simp
    qed
  qed
qed

subsection \<open>dial and close: the invariant holds in every reachable state\<close>

lemmas sys_defs = sys_inv_def past_select_def past_check_def dial_holds_def close_holds_def

lemma sys_inv_init: "sys_inv init_sys"
  by (simp add: sys_defs init_sys_def)

lemma sys_inv_dial:
  assumes "sys_inv s" and "dial_step df s = Some s'"
  shows "sys_inv s'"
proof (cases "dial_at s")
  case D_call
  with assms(2) have s': "s' = (if df then s\<lparr>dial_at := D_fatal\<rparr>
                                else s\<lparr>created := True, dial_at := D_lock\<rparr>)"
    by (simp add: dial_step_def split: if_splits)
  show ?thesis using assms(1) D_call unfolding s' sys_defs by (cases df) auto
next
  case D_lock
  with assms(2) have s': "s' = s\<lparr>mu_locked := True, dial_at := D_select\<rparr>"
    and nl: "\<not> mu_locked s"
    by (simp_all add: dial_step_def split: if_splits)
  show ?thesis using assms(1) D_lock nl unfolding s' sys_defs by auto
next
  case D_select
  show ?thesis
  proof (cases "ctx_done s")
    case True
    with assms(2) D_select have s': "s' = s\<lparr>dial_at := D_close\<rparr>"
      by (simp add: dial_step_def)
    show ?thesis using assms(1) D_select True unfolding s' sys_defs by auto
  next
    case False
    with assms(2) D_select have s': "s' = s\<lparr>dial_at := D_assign\<rparr>"
      by (simp add: dial_step_def)
    show ?thesis using assms(1) D_select False unfolding s' sys_defs by auto
  qed
next
  case D_close
  with assms(2) have s': "s' = s\<lparr>closes := closes s + 1, dial_at := D_unlock\<rparr>"
    by (simp add: dial_step_def)
  show ?thesis using assms(1) D_close unfolding s' sys_defs by auto
next
  case D_assign
  with assms(2) have s': "s' = s\<lparr>cc_stored := True, dial_at := D_unlock\<rparr>"
    by (simp add: dial_step_def)
  show ?thesis using assms(1) D_assign unfolding s' sys_defs by auto
next
  case D_unlock
  with assms(2) have s': "s' = s\<lparr>mu_locked := False, dial_at := D_done\<rparr>"
    by (simp add: dial_step_def)
  show ?thesis using assms(1) D_unlock unfolding s' sys_defs by auto
next
  case D_done
  with assms(2) show ?thesis by (simp add: dial_step_def)
next
  case D_fatal
  with assms(2) show ?thesis by (simp add: dial_step_def)
qed

lemma sys_inv_close:
  assumes "sys_inv s" and "close_step s = Some s'"
  shows "sys_inv s'"
proof (cases "close_at s")
  case K_cancel
  with assms(2) have s': "s' = s\<lparr>ctx_done := True, close_at := K_lock\<rparr>"
    by (simp add: close_step_def)
  show ?thesis using assms(1) K_cancel unfolding s' sys_defs by auto
next
  case K_lock
  with assms(2) have s': "s' = s\<lparr>mu_locked := True, close_at := K_check\<rparr>"
    and nl: "\<not> mu_locked s"
    by (simp_all add: close_step_def split: if_splits)
  show ?thesis using assms(1) K_lock nl unfolding s' sys_defs by auto
next
  case K_check
  show ?thesis
  proof (cases "cc_stored s")
    case True
    with assms(2) K_check have s': "s' = s\<lparr>close_at := K_close\<rparr>"
      by (simp add: close_step_def)
    show ?thesis using assms(1) K_check True unfolding s' sys_defs by auto
  next
    case False
    with assms(2) K_check have s': "s' = s\<lparr>close_at := K_unlock\<rparr>"
      by (simp add: close_step_def)
    show ?thesis using assms(1) K_check False unfolding s' sys_defs by auto
  qed
next
  case K_close
  with assms(2) have s': "s' = s\<lparr>closes := closes s + 1, close_at := K_unlock\<rparr>"
    by (simp add: close_step_def)
  show ?thesis using assms(1) K_close unfolding s' sys_defs by auto
next
  case K_unlock
  with assms(2) have s': "s' = s\<lparr>mu_locked := False, close_at := K_cleanup\<rparr>"
    by (simp add: close_step_def)
  show ?thesis using assms(1) K_unlock unfolding s' sys_defs by auto
next
  case K_cleanup
  with assms(2) have s': "s' = s\<lparr>cleanups := cleanups s + 1, close_at := K_done\<rparr>"
    by (simp add: close_step_def)
  show ?thesis using assms(1) K_cleanup unfolding s' sys_defs by auto
next
  case K_done
  with assms(2) show ?thesis by (simp add: close_step_def)
qed

lemma sys_inv_step:
  assumes "sys_inv s" and "step df t s = Some s'"
  shows "sys_inv s'"
proof (cases t)
  case DialTask
  with assms(2) have "dial_step df s = Some s'" by (simp add: step_def split: if_splits)
  with assms(1) show ?thesis by (rule sys_inv_dial)
next
  case CloseTask
  with assms(2) have "close_step s = Some s'" by (simp add: step_def split: if_splits)
  with assms(1) show ?thesis by (rule sys_inv_close)
qed

lemma sys_inv_exec: "sys_inv s \<Longrightarrow> exec df sched s = Some s' \<Longrightarrow> sys_inv s'"
proof (induction sched arbitrary: s)
  case Nil
  then show ?case by simp
next
  case (Cons t ts)
  from Cons.prems(2) obtain s1 where s1: "step df t s = Some s1" "exec df ts s1 = Some s'"
    by (auto split: option.splits)
  from sys_inv_step[OF Cons.prems(1) s1(1)] s1(2) show ?case by (rule Cons.IH)
qed

text \<open>
  The order in which \<open>close\<close> would test \<open>c.cc\<close> between \<open>dial\<close>'s reading of the
  context and its assignment (and so miss the \<open>ClientConn\<close>) is not an interleaving:
  \<open>close\<close> cannot take the mutex while \<open>dial\<close> holds it. The cancellation itself can
  fall between the two.
\<close>

lemma close_waits_for_dial:
  "exec False [DialTask, DialTask, DialTask, CloseTask] init_sys
     = Some \<lparr>ctx_done = True, mu_locked = True, created = True, cc_stored = False,
             closes = 0, cleanups = 0, dial_at = D_assign, close_at = K_lock\<rparr>
   \<and> exec False [DialTask, DialTask, DialTask, CloseTask, CloseTask] init_sys = None"
  by (simp add: step_def dial_step_def close_step_def init_sys_def)

section \<open>The claims\<close>

lemmas ex_defs = ex_codec_def ex_client_def ex_cds_resp_def ex_eds_resp_def ex_lds_resp_def
  ex_empty_resp_def ex_attempt_def ex_iter_def cdsType_def edsType_def ldsType_def

subsection \<open>C1\<close>

text \<open>
  C1. In an attempt with \<open>enableCDS = true\<close>, let a response whose first resource decodes
  to a \<open>ClusterLoadAssignment\<close> arrive while \<open>expectCDS\<close> still holds, that is, after
  responses \<open>pre\<close> none of which decodes to a \<open>Cluster\<close>. Then the loop, at the head
  where it receives that response, returns with the warning and without calling \<open>newADS\<close>;
  the attempt never calls \<open>newADS\<close> on a \<open>ClusterLoadAssignment\<close>; it does not go on to
  another \<open>Recv\<close> after that response, and what the server would have sent afterwards
  (\<open>rest\<close>) plays no part in it.
\<close>

theorem awaiting_primary_rejects_dependent:
  assumes "enableCDS c"
    and "recvs ae = pre @ (resp, v) # rest"
    and "\<forall>p \<in> set pre. \<forall>y. decode_first um (fst p) \<noteq> Some (Cluster y)"
    and "decode_first um resp = Some (ClusterLoadAssignment x)"
  shows "recv_loop um c True frr ((resp, v) # rest)
           = (True, [Recv (Some resp), Warning ExpectingCDSGotEDS])
       \<and> (\<forall>y b. NewADS (ClusterLoadAssignment y) b \<notin> set (snd (adsCallAttempt um c ae)))
       \<and> Recv None \<notin> set (snd (adsCallAttempt um c ae))
       \<and> adsCallAttempt um c ae = adsCallAttempt um c (ae\<lparr>recvs := pre @ [(resp, v)]\<rparr>)"
proof -
  have head: "recv_loop um c True frr ((resp, v) # rest)
           = (True, [Recv (Some resp), Warning ExpectingCDSGotEDS])"
    using assms(1,4) by (auto simp: recv_body_def decode_first_def split: if_splits)
  have rest: "(\<forall>y b. NewADS (ClusterLoadAssignment y) b \<notin> set (snd (adsCallAttempt um c ae)))
       \<and> Recv None \<notin> set (snd (adsCallAttempt um c ae))
       \<and> adsCallAttempt um c ae = adsCallAttempt um c (ae\<lparr>recvs := pre @ [(resp, v)]\<rparr>)"
    using recv_loop_awaiting[OF assms(3,4), of c False v rest] assms(1,2)
    by (auto simp: adsCallAttempt_def Let_def)
  from head rest show ?thesis by blast
qed

theorem awaiting_primary_rejects_dependent_witness:
  "enableCDS (ex_client True)
   \<and> decode_first ex_codec ex_lds_resp = Some (OtherMessage ''l1'')
   \<and> decode_first ex_codec ex_eds_resp = Some (ClusterLoadAssignment ''e1'')
   \<and> recv_loop ex_codec (ex_client True) True False [(ex_eds_resp, False), (ex_cds_resp, False)]
        = (True, [Recv (Some ex_eds_resp), Warning ExpectingCDSGotEDS])
   \<and> (\<forall>y b. NewADS (ClusterLoadAssignment y) b \<notin> set (snd (adsCallAttempt ex_codec (ex_client True)
          (ex_attempt [(ex_lds_resp, False), (ex_eds_resp, False), (ex_cds_resp, False)]))))
   \<and> Recv None \<notin> set (snd (adsCallAttempt ex_codec (ex_client True)
          (ex_attempt [(ex_lds_resp, False), (ex_eds_resp, False), (ex_cds_resp, False)])))
   \<and> adsCallAttempt ex_codec (ex_client True)
          (ex_attempt [(ex_lds_resp, False), (ex_eds_resp, False), (ex_cds_resp, False)])
       = adsCallAttempt ex_codec (ex_client True)
          (ex_attempt [(ex_lds_resp, False), (ex_eds_resp, False)])"
proof -
  have h1: "enableCDS (ex_client True)"
    by (simp add: ex_client_def)
  have h2: "recvs (ex_attempt [(ex_lds_resp, False), (ex_eds_resp, False), (ex_cds_resp, False)])
              = [(ex_lds_resp, False)] @ (ex_eds_resp, False) # [(ex_cds_resp, False)]"
    by (simp add: ex_attempt_def)
  have l: "decode_first ex_codec ex_lds_resp = Some (OtherMessage ''l1'')"
    by (simp add: decode_first_def ex_defs)
  then have h3: "\<forall>p \<in> set [(ex_lds_resp, False)]. \<forall>y. decode_first ex_codec (fst p) \<noteq> Some (Cluster y)"
    by simp
  have h4: "decode_first ex_codec ex_eds_resp = Some (ClusterLoadAssignment ''e1'')"
    by (simp add: decode_first_def ex_defs)
  have e: "(ex_attempt [(ex_lds_resp, False), (ex_eds_resp, False), (ex_cds_resp, False)])
              \<lparr>recvs := [(ex_lds_resp, False)] @ [(ex_eds_resp, False)]\<rparr>
           = ex_attempt [(ex_lds_resp, False), (ex_eds_resp, False)]"
    by (simp add: ex_attempt_def)
  show ?thesis
    using h1 l h4 awaiting_primary_rejects_dependent[OF h1 h2 h3 h4, where frr = False]
    unfolding e by blast
qed

subsection \<open>C2\<close>

text \<open>
  C2 says that an attempt reports a received response only after a response has been
  validated, decoded and dispatched without error. The code sets \<open>firstRespReceived\<close>
  as soon as \<open>Recv\<close> returns a response (line 219), before any check: an attempt whose
  only response has no resource, and which dispatches nothing, reports \<open>true\<close>.
\<close>

theorem faulty_response_counts_as_received:
  "adsCallAttempt ex_codec (ex_client True) (ex_attempt [(ex_empty_resp, False)]) =
     (True, [OpenStream True, Send (newCDSRequest (ex_client True)) True,
             Send (newEDSRequest (ex_client True)) True,
             Recv (Some ex_empty_resp), Warning ZeroResourceInfo, CancelAttempt])"
  by (simp add: adsCallAttempt_def recv_body_def ex_attempt_def ex_client_def ex_empty_resp_def)

text \<open>
  C2, amended. An attempt reports \<open>true\<close> exactly when one of its calls of \<open>Recv\<close>
  returned a response, whatever became of that response; that is, exactly when the stream
  was opened, the sends succeeded and the server sent at least one response.
\<close>

theorem attempt_reports_any_response:
  "fst (adsCallAttempt um c ae) = (\<exists>r. Recv (Some r) \<in> set (snd (adsCallAttempt um c ae)))
   \<and> fst (adsCallAttempt um c ae) =
       (\<not> stream_err ae \<and> \<not> (enableCDS c \<and> send_cds_err ae) \<and> \<not> send_eds_err ae
        \<and> recvs ae \<noteq> [])"
  using recv_loop_some_recv[of um c "enableCDS c" False "recvs ae"]
  by (auto simp: adsCallAttempt_def Let_def recv_loop_fst)

theorem attempt_reports_any_response_witness:
  "fst (adsCallAttempt ex_codec (ex_client True) (ex_attempt [(ex_empty_resp, False)]))
   \<and> (\<exists>r. Recv (Some r) \<in> set (snd (adsCallAttempt ex_codec (ex_client True)
              (ex_attempt [(ex_empty_resp, False)]))))
   \<and> \<not> fst (adsCallAttempt ex_codec (ex_client True) (ex_attempt []))"
  using attempt_reports_any_response[of ex_codec "ex_client True" "ex_attempt [(ex_empty_resp, False)]"]
        attempt_reports_any_response[of ex_codec "ex_client True" "ex_attempt []"]
  by (auto simp: ex_attempt_def ex_client_def)

subsection \<open>C3\<close>

text \<open>
  C3 says that the loop waits for the backoff before every attempt after the first,
  whether or not the attempt before received a response. The code waits only when
  \<open>doRetry\<close> is set (line 171), and an attempt that received a response clears it
  (line 185): here the first attempt receives and dispatches a response, the stream then
  breaks, and the second attempt starts right after \<open>loseContact\<close>, with no timer.
\<close>

theorem no_backoff_after_response:
  "fst (makeADSCall ex_codec (ex_client False)
          [ex_iter [(ex_eds_resp, False)], ex_iter [(ex_eds_resp, False)]])
     = [OpenStream True, Send (newEDSRequest (ex_client False)) True,
        Recv (Some ex_eds_resp), NewADS (ClusterLoadAssignment ''e1'') False, Recv None,
        CancelAttempt, LoseContact,
        OpenStream True, Send (newEDSRequest (ex_client False)) True,
        Recv (Some ex_eds_resp), NewADS (ClusterLoadAssignment ''e1'') False, Recv None,
        CancelAttempt, LoseContact]
   \<and> \<not> backoff_before_every_retry
       (fst (makeADSCall ex_codec (ex_client False)
          [ex_iter [(ex_eds_resp, False)], ex_iter [(ex_eds_resp, False)]]))"
  by (simp add: makeADSCall_def init_loop_state_def loop_body_def adsCallAttempt_def
      recv_body_def is_open_def Let_def ex_defs)

text \<open>When both attempts fail, the same reading holds of the run: the timer fires before
  the second attempt.\<close>

lemma backoff_before_retry_after_failure:
  "backoff_before_every_retry
     (fst (makeADSCall ex_codec (ex_client False) [ex_iter [], ex_iter []]))"
  by (simp add: makeADSCall_def init_loop_state_def loop_body_def adsCallAttempt_def
      is_open_def Let_def ex_defs)

text \<open>
  C3, amended. Take two consecutive iterations of the loop, the second not cancelled at
  its top. If the attempt of the first received no response, the second creates a timer
  for \<open>Backoff(retryCount)\<close> and either the timer fires and the attempt follows, or the
  context is done first and the loop returns at once, with no attempt and no
  \<open>loseContact\<close>. If the attempt of the first received a response, the second starts its
  attempt without a timer.
\<close>

theorem backoff_only_after_failed_attempt:
  assumes "loop_body um c ie1 s0 = Continued s1 evs1" and "\<not> ctx_done_at_top ie2"
  shows "(fst (adsCallAttempt um c (attempt ie1)) \<longrightarrow>
            (\<exists>s2. loop_body um c ie2 s1 =
                Continued s2 (snd (adsCallAttempt um c (attempt ie2)) @ [LoseContact])))
       \<and> (\<not> fst (adsCallAttempt um c (attempt ie1)) \<and> ctx_done_in_wait ie2 \<longrightarrow>
            loop_body um c ie2 s1 = Returned [NewTimer (backoff c (retryCount s1)), TimerStop])
       \<and> (\<not> fst (adsCallAttempt um c (attempt ie1)) \<and> \<not> ctx_done_in_wait ie2 \<longrightarrow>
            (\<exists>s2. loop_body um c ie2 s1 =
                Continued s2 (NewTimer (backoff c (retryCount s1)) # TimerFired #
                              snd (adsCallAttempt um c (attempt ie2)) @ [LoseContact])))"
proof -
  from assms(1) have "doRetry s1 = (\<not> fst (adsCallAttempt um c (attempt ie1)))"
    by (auto simp: loop_body_def Let_def split: if_splits)
  then show ?thesis using assms(2)
    by (auto simp: loop_body_def Let_def)
qed


theorem backoff_only_after_failed_attempt_witness:
  "loop_body ex_codec (ex_client True) (ex_iter []) init_loop_state
     = Continued \<lparr>retryCount = 0, doRetry = True\<rparr>
         (snd (adsCallAttempt ex_codec (ex_client True) (ex_attempt [])) @ [LoseContact])
   \<and> \<not> fst (adsCallAttempt ex_codec (ex_client True) (attempt (ex_iter [])))
   \<and> (\<exists>s2. loop_body ex_codec (ex_client True) (ex_iter []) \<lparr>retryCount = 0, doRetry = True\<rparr>
         = Continued s2 (NewTimer 1000 # TimerFired #
             snd (adsCallAttempt ex_codec (ex_client True) (attempt (ex_iter []))) @ [LoseContact]))
   \<and> loop_body ex_codec (ex_client True)
         \<lparr>ctx_done_at_top = False, ctx_done_in_wait = True, attempt = ex_attempt []\<rparr>
         \<lparr>retryCount = 0, doRetry = True\<rparr>
       = Returned [NewTimer 1000, TimerStop]
   \<and> loop_body ex_codec (ex_client True) (ex_iter [(ex_cds_resp, False)]) init_loop_state
     = Continued \<lparr>retryCount = 0, doRetry = False\<rparr>
         (snd (adsCallAttempt ex_codec (ex_client True) (ex_attempt [(ex_cds_resp, False)]))
          @ [LoseContact])
   \<and> fst (adsCallAttempt ex_codec (ex_client True) (attempt (ex_iter [(ex_cds_resp, False)])))
   \<and> (\<exists>s2. loop_body ex_codec (ex_client True) (ex_iter []) \<lparr>retryCount = 0, doRetry = False\<rparr>
         = Continued s2
             (snd (adsCallAttempt ex_codec (ex_client True) (attempt (ex_iter []))) @ [LoseContact]))"
proof -
  let ?c = "ex_client True"
  let ?s1 = "\<lparr>retryCount = 0, doRetry = True\<rparr>"
  let ?s1' = "\<lparr>retryCount = 0, doRetry = False\<rparr>"
  let ?cancelled = "\<lparr>ctx_done_at_top = False, ctx_done_in_wait = True, attempt = ex_attempt []\<rparr>"
  have nr: "\<not> fst (adsCallAttempt ex_codec ?c (attempt (ex_iter [])))"
    by (simp add: adsCallAttempt_def ex_iter_def ex_attempt_def ex_client_def)
  have h1: "loop_body ex_codec ?c (ex_iter []) init_loop_state
     = Continued ?s1 (snd (adsCallAttempt ex_codec ?c (ex_attempt [])) @ [LoseContact])"
    using nr by (simp add: loop_body_def init_loop_state_def Let_def ex_iter_def)
  have r: "fst (adsCallAttempt ex_codec ?c (attempt (ex_iter [(ex_cds_resp, False)])))"
    by (simp add: adsCallAttempt_def Let_def recv_loop_fst ex_iter_def ex_attempt_def ex_client_def
          del: recv_loop.simps)
  have h1': "loop_body ex_codec ?c (ex_iter [(ex_cds_resp, False)]) init_loop_state
     = Continued ?s1' (snd (adsCallAttempt ex_codec ?c (ex_attempt [(ex_cds_resp, False)]))
          @ [LoseContact])"
    using r by (simp add: loop_body_def init_loop_state_def Let_def ex_iter_def)
  have h2: "\<not> ctx_done_at_top (ex_iter [])" by (simp add: ex_iter_def)
  have h2': "\<not> ctx_done_at_top ?cancelled" by simp
  have w: "\<not> ctx_done_in_wait (ex_iter [])" by (simp add: ex_iter_def)
  have w': "ctx_done_in_wait ?cancelled" by simp
  have b: "backoff ?c (retryCount ?s1) = 1000" by (simp add: ex_client_def)
  show ?thesis
    using h1 h1' nr r w w' backoff_only_after_failed_attempt[OF h1 h2]
      backoff_only_after_failed_attempt[OF h1 h2']
      backoff_only_after_failed_attempt[OF h1' h2]
    unfolding b by blast
qed

subsection \<open>C4\<close>

text \<open>
  C4. In a run of the loop of fewer than \<open>2^63\<close> iterations (\<open>retryCount\<close> is a Go
  \<open>int\<close> and cannot wrap before that), look at the state at the end of iteration \<open>i\<close>:
  if its attempt received a response, \<open>retryCount\<close> is 0; if not, \<open>retryCount\<close> is at
  least what it was at the end of the iteration before (or at the start of the loop).
\<close>

theorem retryCount_monotone_and_reset:
  assumes "int (length envs) < 2 ^ 63"
    and "i < length (loop_states um c init_loop_state envs)"
  shows "(fst (adsCallAttempt um c (attempt (envs ! i))) \<longrightarrow>
            retryCount (loop_states um c init_loop_state envs ! i) = 0)
       \<and> (\<not> fst (adsCallAttempt um c (attempt (envs ! i))) \<longrightarrow>
            retryCount ((init_loop_state # loop_states um c init_loop_state envs) ! i)
              \<le> retryCount (loop_states um c init_loop_state envs ! i))"
proof -
  have "0 \<le> retryCount init_loop_state"
    and "retryCount init_loop_state + int (length envs) < 2 ^ 63"
    using assms(1) by (simp_all add: init_loop_state_def)
  from loop_states_retryCount[OF this assms(2)] show ?thesis .
qed

theorem retryCount_monotone_and_reset_witness:
  "loop_states ex_codec (ex_client True) init_loop_state
       [ex_iter [], ex_iter [], ex_iter [(ex_cds_resp, False)]]
     = [\<lparr>retryCount = 0, doRetry = True\<rparr>, \<lparr>retryCount = 1, doRetry = True\<rparr>,
        \<lparr>retryCount = 0, doRetry = False\<rparr>]
   \<and> \<not> fst (adsCallAttempt ex_codec (ex_client True) (ex_attempt []))
   \<and> retryCount ((init_loop_state # loop_states ex_codec (ex_client True) init_loop_state
          [ex_iter [], ex_iter [], ex_iter [(ex_cds_resp, False)]]) ! 1)
       \<le> retryCount (loop_states ex_codec (ex_client True) init_loop_state
          [ex_iter [], ex_iter [], ex_iter [(ex_cds_resp, False)]] ! 1)
   \<and> fst (adsCallAttempt ex_codec (ex_client True) (ex_attempt [(ex_cds_resp, False)]))
   \<and> retryCount (loop_states ex_codec (ex_client True) init_loop_state
          [ex_iter [], ex_iter [], ex_iter [(ex_cds_resp, False)]] ! 2) = 0"
proof -
  let ?envs = "[ex_iter [], ex_iter [], ex_iter [(ex_cds_resp, False)]]"
  let ?sts = "loop_states ex_codec (ex_client True) init_loop_state ?envs"
  have a0: "\<not> fst (adsCallAttempt ex_codec (ex_client True) (ex_attempt []))"
    by (simp add: adsCallAttempt_def ex_attempt_def ex_client_def)
  have a1: "fst (adsCallAttempt ex_codec (ex_client True) (ex_attempt [(ex_cds_resp, False)]))"
    by (simp add: adsCallAttempt_def Let_def recv_loop_fst ex_attempt_def ex_client_def
          del: recv_loop.simps)
  have sts: "?sts = [\<lparr>retryCount = 0, doRetry = True\<rparr>, \<lparr>retryCount = 1, doRetry = True\<rparr>,
        \<lparr>retryCount = 0, doRetry = False\<rparr>]"
    using a0 a1 by (simp add: loop_body_def init_loop_state_def int_incr_def Let_def ex_iter_def)
  have len: "int (length ?envs) < 2 ^ 63" by simp
  have i1: "1 < length ?sts" and i2: "2 < length ?sts" unfolding sts by simp_all
  have e1: "attempt (?envs ! 1) = ex_attempt []"
    and e2: "attempt (?envs ! 2) = ex_attempt [(ex_cds_resp, False)]"
    by (simp_all add: ex_iter_def)
  show ?thesis
    using sts a0 a1 retryCount_monotone_and_reset[OF len i1] retryCount_monotone_and_reset[OF len i2]
    unfolding e1 e2 by blast
qed

subsection \<open>C5\<close>

text \<open>
  C5. In an attempt with \<open>enableCDS = false\<close> in which the stream opens and the request
  is sent, let the first response have the EDS type URL and a first resource that decodes to
  a \<open>ClusterLoadAssignment\<close>. Then the attempt calls \<open>newADS\<close> on that message right
  after the \<open>Recv\<close>, logs no phase violation, and goes on to the next \<open>Recv\<close> unless the
  callback itself returns an error.
\<close>

theorem dependent_first_accepted_without_primary_phase:
  assumes "\<not> enableCDS c" and "\<not> stream_err ae" and "\<not> send_eds_err ae"
    and "recvs ae = (resp, v) # rest"
    and "typeUrl resp = edsType"
    and "decode_first um resp = Some (ClusterLoadAssignment x)"
  shows "adsCallAttempt um c ae =
           (True, [OpenStream True, Send (newEDSRequest c) True,
                   Recv (Some resp), NewADS (ClusterLoadAssignment x) v]
                  @ (if v then [Warning ProcessingFailed]
                     else snd (recv_loop um c False True rest))
                  @ [CancelAttempt])
       \<and> Warning ExpectingCDSGotEDS \<notin> set (snd (adsCallAttempt um c ae))"
  using assms recv_loop_ready_no_violation[of um c True rest]
  by (auto simp: adsCallAttempt_def Let_def decode_first_def recv_body_def cdsType_def
        edsType_def recv_loop_fst split: if_splits)

theorem dependent_first_accepted_without_primary_phase_witness:
  "\<not> enableCDS (ex_client False)
   \<and> typeUrl ex_eds_resp = edsType
   \<and> decode_first ex_codec ex_eds_resp = Some (ClusterLoadAssignment ''e1'')
   \<and> adsCallAttempt ex_codec (ex_client False) (ex_attempt [(ex_eds_resp, False)]) =
        (True, [OpenStream True, Send (newEDSRequest (ex_client False)) True,
                Recv (Some ex_eds_resp), NewADS (ClusterLoadAssignment ''e1'') False,
                Recv None, CancelAttempt])
   \<and> Warning ExpectingCDSGotEDS
        \<notin> set (snd (adsCallAttempt ex_codec (ex_client False) (ex_attempt [(ex_eds_resp, False)])))"
proof -
  have h1: "\<not> enableCDS (ex_client False)" by (simp add: ex_client_def)
  have h2: "\<not> stream_err (ex_attempt [(ex_eds_resp, False)])" by (simp add: ex_attempt_def)
  have h3: "\<not> send_eds_err (ex_attempt [(ex_eds_resp, False)])" by (simp add: ex_attempt_def)
  have h4: "recvs (ex_attempt [(ex_eds_resp, False)]) = (ex_eds_resp, False) # []"
    by (simp add: ex_attempt_def)
  have h5: "typeUrl ex_eds_resp = edsType" by (simp add: ex_eds_resp_def)
  have h6: "decode_first ex_codec ex_eds_resp = Some (ClusterLoadAssignment ''e1'')"
    by (simp add: decode_first_def ex_defs)
  show ?thesis
    using h1 h5 h6 dependent_first_accepted_without_primary_phase[OF h1 h2 h3 h4 h5 h6]
    by simp
qed


subsection \<open>C6\<close>

text \<open>
  C6. A response with no resource makes the receive loop return, at whatever head it
  arrives, with the warning and without a call of \<open>newADS\<close>. In an iteration of the
  session loop that is not cancelled and whose attempt gets as far as receiving such a
  response (after the responses \<open>pre\<close>), the attempt produces what it produces on
  \<open>pre\<close>, then the \<open>Recv\<close> of the empty response, the warning and the end of the
  attempt; the loop body neither returns nor fails: it calls \<open>loseContact\<close> and goes on
  to the next iteration with \<open>retryCount = 0\<close> and \<open>doRetry = false\<close>.
\<close>

theorem empty_response_ends_attempt:
  assumes "resources resp = []"
    and "recvs (attempt ie) = pre @ (resp, v) # rest"
    and "Recv None \<in> set (snd (adsCallAttempt um c ((attempt ie)\<lparr>recvs := pre\<rparr>)))"
    and "\<not> ctx_done_at_top ie" and "\<not> (doRetry s \<and> ctx_done_in_wait ie)"
  shows "recv_loop um c e f ((resp, v) # rest)
           = (True, [Recv (Some resp), Warning ZeroResourceInfo])
       \<and> (\<exists>evs. snd (adsCallAttempt um c ((attempt ie)\<lparr>recvs := pre\<rparr>))
                    = evs @ [Recv None, CancelAttempt]
                \<and> adsCallAttempt um c (attempt ie)
                    = (True, evs @ [Recv (Some resp), Warning ZeroResourceInfo, CancelAttempt]))
       \<and> loop_body um c ie s =
           Continued init_loop_state
             ((if doRetry s then [NewTimer (backoff c (retryCount s)), TimerFired] else [])
              @ snd (adsCallAttempt um c (attempt ie)) @ [LoseContact])"
proof -
  let ?ae = "attempt ie"
  let ?sent = "OpenStream True # (if enableCDS c then [Send (newCDSRequest c) True] else [])
                 @ [Send (newEDSRequest c) True]"
  let ?lp = "snd (recv_loop um c (enableCDS c) False pre)"
  have head: "recv_loop um c e f ((resp, v) # rest)
           = (True, [Recv (Some resp), Warning ZeroResourceInfo])"
    using assms(1) by (simp add: recv_body_def)
  have ok: "\<not> stream_err ?ae" "\<not> (enableCDS c \<and> send_cds_err ?ae)" "\<not> send_eds_err ?ae"
    using assms(3) by (auto simp: adsCallAttempt_def Let_def split: if_splits)
  then have pre_evs: "snd (adsCallAttempt um c (?ae\<lparr>recvs := pre\<rparr>))
                        = ?sent @ ?lp @ [CancelAttempt]"
    by (auto simp: adsCallAttempt_def Let_def)
  with assms(3) have reach: "Recv None \<in> set ?lp"
    by (auto split: if_splits)
  note r = recv_loop_reaches_empty[OF assms(1) reach, of v rest]
  have full: "adsCallAttempt um c ?ae
                = (True, ?sent @ butlast ?lp
                           @ [Recv (Some resp), Warning ZeroResourceInfo, CancelAttempt])"
    using ok r assms(2) by (auto simp: adsCallAttempt_def Let_def)
  have "snd (adsCallAttempt um c (?ae\<lparr>recvs := pre\<rparr>))
          = (?sent @ butlast ?lp) @ [Recv None, CancelAttempt]"
    using pre_evs r by simp
  moreover have "adsCallAttempt um c ?ae
          = (True, (?sent @ butlast ?lp)
                     @ [Recv (Some resp), Warning ZeroResourceInfo, CancelAttempt])"
    using full by simp
  ultimately have att: "\<exists>evs. snd (adsCallAttempt um c (?ae\<lparr>recvs := pre\<rparr>))
                    = evs @ [Recv None, CancelAttempt]
                \<and> adsCallAttempt um c ?ae
                    = (True, evs @ [Recv (Some resp), Warning ZeroResourceInfo, CancelAttempt])"
    by blast
  have "fst (adsCallAttempt um c ?ae)" using full by simp
  then have body: "loop_body um c ie s =
           Continued init_loop_state
             ((if doRetry s then [NewTimer (backoff c (retryCount s)), TimerFired] else [])
              @ snd (adsCallAttempt um c ?ae) @ [LoseContact])"
    using assms(4,5) by (auto simp: loop_body_def Let_def init_loop_state_def)
  from head att body show ?thesis by blast
qed

theorem empty_response_ends_attempt_witness:
  "resources ex_empty_resp = []
   \<and> Recv None \<in> set (snd (adsCallAttempt ex_codec (ex_client True)
                              (ex_attempt [(ex_cds_resp, False)])))
   \<and> recv_loop ex_codec (ex_client True) False True [(ex_empty_resp, False), (ex_eds_resp, False)]
        = (True, [Recv (Some ex_empty_resp), Warning ZeroResourceInfo])
   \<and> (\<exists>evs. snd (adsCallAttempt ex_codec (ex_client True) (ex_attempt [(ex_cds_resp, False)]))
                = evs @ [Recv None, CancelAttempt]
            \<and> adsCallAttempt ex_codec (ex_client True)
                  (ex_attempt [(ex_cds_resp, False), (ex_empty_resp, False), (ex_eds_resp, False)])
                = (True, evs @ [Recv (Some ex_empty_resp), Warning ZeroResourceInfo,
                                CancelAttempt]))
   \<and> loop_body ex_codec (ex_client True)
         (ex_iter [(ex_cds_resp, False), (ex_empty_resp, False), (ex_eds_resp, False)])
         \<lparr>retryCount = 2, doRetry = True\<rparr>
       = Continued init_loop_state
           ([NewTimer 3000, TimerFired]
            @ snd (adsCallAttempt ex_codec (ex_client True)
                (ex_attempt [(ex_cds_resp, False), (ex_empty_resp, False), (ex_eds_resp, False)]))
            @ [LoseContact])"
proof -
  let ?c = "ex_client True"
  let ?rs = "[(ex_cds_resp, False), (ex_empty_resp, False), (ex_eds_resp, False)]"
  let ?s = "\<lparr>retryCount = 2, doRetry = True\<rparr>"
  have h1: "resources ex_empty_resp = []" by (simp add: ex_empty_resp_def)
  have h2: "recvs (attempt (ex_iter ?rs))
              = [(ex_cds_resp, False)] @ (ex_empty_resp, False) # [(ex_eds_resp, False)]"
    by (simp add: ex_iter_def ex_attempt_def)
  have e: "(attempt (ex_iter ?rs))\<lparr>recvs := [(ex_cds_resp, False)]\<rparr>
             = ex_attempt [(ex_cds_resp, False)]"
    and e': "attempt (ex_iter ?rs) = ex_attempt ?rs"
    and e'': "(ex_attempt ?rs)\<lparr>recvs := [(ex_cds_resp, False)]\<rparr>
             = ex_attempt [(ex_cds_resp, False)]"
    by (simp_all add: ex_iter_def ex_attempt_def)
  have r: "Recv None \<in> set (snd (adsCallAttempt ex_codec ?c (ex_attempt [(ex_cds_resp, False)])))"
    by (simp add: adsCallAttempt_def recv_body_def Let_def ex_defs)
  then have h3: "Recv None \<in> set (snd (adsCallAttempt ex_codec ?c
                    ((attempt (ex_iter ?rs))\<lparr>recvs := [(ex_cds_resp, False)]\<rparr>)))"
    by (simp only: e)
  have h4: "\<not> ctx_done_at_top (ex_iter ?rs)" by (simp add: ex_iter_def)
  have h5: "\<not> (doRetry ?s \<and> ctx_done_in_wait (ex_iter ?rs))" by (simp add: ex_iter_def)
  have b: "(if doRetry ?s then [NewTimer (backoff ?c (retryCount ?s)), TimerFired] else [])
             = [NewTimer 3000, TimerFired]"
    by (simp add: ex_client_def)
  show ?thesis
    using h1 r empty_response_ends_attempt[OF h1 h2 h3 h4 h5, where e = False and f = True]
    unfolding e' e'' b by blast
qed

subsection \<open>C7\<close>

text \<open>
  C7. In the events of every run of the session loop, each end of an attempt is followed
  at once by exactly one call of \<open>loseContact\<close>, \<open>loseContact\<close> is called nowhere
  else, and the number of calls is the number of attempts that were started.
\<close>

theorem lose_contact_once_after_each_attempt:
  "lost_contact_once_per_attempt (fst (makeADSCall um c envs))
   \<and> count_list (fst (makeADSCall um c envs)) LoseContact
       = length (filter is_open (fst (makeADSCall um c envs)))"
  using makeADSCall_from_lost_contact[of um c init_loop_state envs]
  by (simp add: makeADSCall_def)

theorem lose_contact_once_after_each_attempt_witness:
  "lost_contact_once_per_attempt
     (fst (makeADSCall ex_codec (ex_client True)
        [ex_iter [], ex_iter [(ex_cds_resp, False), (ex_eds_resp, True)], ex_iter []]))
   \<and> count_list
       (fst (makeADSCall ex_codec (ex_client True)
          [ex_iter [], ex_iter [(ex_cds_resp, False), (ex_eds_resp, True)], ex_iter []]))
       LoseContact = 3"
proof -
  let ?tr = "fst (makeADSCall ex_codec (ex_client True)
        [ex_iter [], ex_iter [(ex_cds_resp, False), (ex_eds_resp, True)], ex_iter []])"
  have "length (filter is_open ?tr) = 3"
    by (simp add: makeADSCall_def init_loop_state_def loop_body_def adsCallAttempt_def
        recv_body_def is_open_def Let_def int_incr_def ex_defs)
  with lose_contact_once_after_each_attempt[of ex_codec "ex_client True"
      "[ex_iter [], ex_iter [(ex_cds_resp, False), (ex_eds_resp, True)], ex_iter []]"]
  show ?thesis by simp
qed

subsection \<open>C8\<close>

text \<open>
  C8. In an attempt with \<open>enableCDS = true\<close> in which the stream opens and the CDS
  request is sent, a failure of the send of the EDS request ends the attempt there: no
  \<open>Recv\<close> is made and the attempt reports that no response was received.
\<close>

theorem dependent_send_failure_ends_attempt:
  assumes "enableCDS c" and "\<not> stream_err ae" and "\<not> send_cds_err ae" and "send_eds_err ae"
  shows "adsCallAttempt um c ae =
           (False, [OpenStream True, Send (newCDSRequest c) True,
                    Send (newEDSRequest c) False, CancelAttempt])"
  using assms by (simp add: adsCallAttempt_def)

theorem dependent_send_failure_ends_attempt_witness:
  "enableCDS (ex_client True)
   \<and> adsCallAttempt ex_codec (ex_client True)
        \<lparr>stream_err = False, send_cds_err = False, send_eds_err = True,
         recvs = [(ex_cds_resp, False)]\<rparr>
      = (False, [OpenStream True, Send (newCDSRequest (ex_client True)) True,
                 Send (newEDSRequest (ex_client True)) False, CancelAttempt])"
proof -
  let ?ae = "\<lparr>stream_err = False, send_cds_err = False, send_eds_err = True,
         recvs = [(ex_cds_resp, False)]\<rparr>"
  have h1: "enableCDS (ex_client True)" by (simp add: ex_client_def)
  have h2: "\<not> stream_err ?ae" and h3: "\<not> send_cds_err ?ae" and h4: "send_eds_err ?ae"
    by simp_all
  show ?thesis
    using h1 dependent_send_failure_ends_attempt[OF h1 h2 h3 h4, of ex_codec] by blast
qed


subsection \<open>C9\<close>

text \<open>
  C9. Let \<open>dial\<close> and \<open>close\<close> run on two tasks, their steps interleaved in any order
  that the mutex allows, from the state in which neither has started; the test of the
  context and the test of \<open>c.cc\<close> are steps of their own, apart from the \<open>Close\<close> or
  the assignment that follows them, and \<open>cancel\<close> is outside the mutex. In every state
  that is reached the two tasks are never both between \<open>Lock\<close> and \<open>Unlock\<close>, and the
  \<open>ClientConn\<close> has been closed at most once. Once both have returned, the
  \<open>ClientConn\<close> that \<open>DialContext\<close> created has been closed exactly once, so none
  stays open. When \<open>dial\<close> finds the context cancelled at its \<open>select\<close>, \<open>c.cc\<close> is
  nil, and the next step of \<open>dial\<close> closes the new \<open>ClientConn\<close>, which no one has
  closed before, and leaves \<open>c.cc\<close> nil.
\<close>

theorem dial_close_no_leak_no_double_close:
  assumes "exec dial_fails sched init_sys = Some s"
  shows "closes s \<le> 1
       \<and> \<not> (dial_holds s \<and> close_holds s)
       \<and> (dial_at s = D_done \<and> close_at s = K_done \<longrightarrow> created s \<and> closes s = 1)
       \<and> (dial_at s = D_select \<and> ctx_done s \<longrightarrow>
            \<not> cc_stored s \<and> step dial_fails DialTask s = Some (s\<lparr>dial_at := D_close\<rparr>))
       \<and> (dial_at s = D_close \<longrightarrow>
            \<not> cc_stored s \<and> closes s = 0
            \<and> step dial_fails DialTask s
                 = Some (s\<lparr>closes := closes s + 1, dial_at := D_unlock\<rparr>))"
proof -
  have inv: "sys_inv s" using sys_inv_exec[OF sys_inv_init assms] .
  have "closes s \<le> 1" using inv unfolding sys_defs by simp
  moreover have "\<not> (dial_holds s \<and> close_holds s)" using inv unfolding sys_inv_def by simp
  moreover have "dial_at s = D_done \<and> close_at s = K_done \<longrightarrow> created s \<and> closes s = 1"
    using inv unfolding sys_defs by simp
  moreover have "dial_at s = D_select \<and> ctx_done s \<longrightarrow> \<not> cc_stored s"
    using inv unfolding sys_defs by auto
  moreover have "dial_at s = D_select \<and> ctx_done s \<longrightarrow>
            step dial_fails DialTask s = Some (s\<lparr>dial_at := D_close\<rparr>)"
    by (simp add: step_def dial_step_def)
  moreover have "dial_at s = D_close \<longrightarrow> \<not> cc_stored s \<and> closes s = 0"
    using inv unfolding sys_defs by auto
  moreover have "dial_at s = D_close \<longrightarrow>
            step dial_fails DialTask s = Some (s\<lparr>closes := closes s + 1, dial_at := D_unlock\<rparr>)"
    by (simp add: step_def dial_step_def)
  ultimately show ?thesis by blast
qed

theorem dial_close_no_leak_no_double_close_witness:
  "exec False [DialTask, CloseTask, DialTask, DialTask, DialTask, DialTask,
               CloseTask, CloseTask, CloseTask, CloseTask] init_sys
     = Some \<lparr>ctx_done = True, mu_locked = False, created = True, cc_stored = False,
             closes = 1, cleanups = 1, dial_at = D_done, close_at = K_done\<rparr>
   \<and> exec False [DialTask, DialTask, DialTask, CloseTask, DialTask, DialTask,
                 CloseTask, CloseTask, CloseTask, CloseTask, CloseTask] init_sys
     = Some \<lparr>ctx_done = True, mu_locked = False, created = True, cc_stored = True,
             closes = 1, cleanups = 1, dial_at = D_done, close_at = K_done\<rparr>
   \<and> exec False [DialTask, CloseTask, DialTask] init_sys
     = Some \<lparr>ctx_done = True, mu_locked = True, created = True, cc_stored = False,
             closes = 0, cleanups = 0, dial_at = D_select, close_at = K_lock\<rparr>
   \<and> step False DialTask
        \<lparr>ctx_done = True, mu_locked = True, created = True, cc_stored = False,
         closes = 0, cleanups = 0, dial_at = D_select, close_at = K_lock\<rparr>
     = Some \<lparr>ctx_done = True, mu_locked = True, created = True, cc_stored = False,
             closes = 0, cleanups = 0, dial_at = D_close, close_at = K_lock\<rparr>
   \<and> exec False [DialTask, CloseTask, DialTask, DialTask] init_sys
     = Some \<lparr>ctx_done = True, mu_locked = True, created = True, cc_stored = False,
             closes = 0, cleanups = 0, dial_at = D_close, close_at = K_lock\<rparr>
   \<and> step False DialTask
        \<lparr>ctx_done = True, mu_locked = True, created = True, cc_stored = False,
         closes = 0, cleanups = 0, dial_at = D_close, close_at = K_lock\<rparr>
     = Some \<lparr>ctx_done = True, mu_locked = True, created = True, cc_stored = False,
             closes = 1, cleanups = 0, dial_at = D_unlock, close_at = K_lock\<rparr>"
proof -
  let ?fin = "\<lparr>ctx_done = True, mu_locked = False, created = True, cc_stored = False,
             closes = 1, cleanups = 1, dial_at = D_done, close_at = K_done\<rparr>"
  let ?fin' = "\<lparr>ctx_done = True, mu_locked = False, created = True, cc_stored = True,
             closes = 1, cleanups = 1, dial_at = D_done, close_at = K_done\<rparr>"
  let ?sel = "\<lparr>ctx_done = True, mu_locked = True, created = True, cc_stored = False,
             closes = 0, cleanups = 0, dial_at = D_select, close_at = K_lock\<rparr>"
  let ?cls = "\<lparr>ctx_done = True, mu_locked = True, created = True, cc_stored = False,
             closes = 0, cleanups = 0, dial_at = D_close, close_at = K_lock\<rparr>"
  have e1: "exec False [DialTask, CloseTask, DialTask, DialTask, DialTask, DialTask,
               CloseTask, CloseTask, CloseTask, CloseTask] init_sys = Some ?fin"
    by (simp add: step_def dial_step_def close_step_def init_sys_def)
  have e2: "exec False [DialTask, DialTask, DialTask, CloseTask, DialTask, DialTask,
                 CloseTask, CloseTask, CloseTask, CloseTask, CloseTask] init_sys = Some ?fin'"
    by (simp add: step_def dial_step_def close_step_def init_sys_def)
  have e3: "exec False [DialTask, CloseTask, DialTask] init_sys = Some ?sel"
    by (simp add: step_def dial_step_def close_step_def init_sys_def)
  have e4: "exec False [DialTask, CloseTask, DialTask, DialTask] init_sys = Some ?cls"
    by (simp add: step_def dial_step_def close_step_def init_sys_def)
  show ?thesis
    using e1 e2 e3 e4
      dial_close_no_leak_no_double_close[OF e1] dial_close_no_leak_no_double_close[OF e2]
      dial_close_no_leak_no_double_close[OF e3] dial_close_no_leak_no_double_close[OF e4]
    by simp
qed

subsection \<open>C10\<close>

text \<open>
  C10. Within one attempt the values of \<open>expectCDS\<close> at the successive heads of the
  receive loop never go from false back to true: it starts as \<open>enableCDS\<close>, a pass that
  decodes a \<open>Cluster\<close> and loops back leaves it false, and no pass sets it. So no phase
  violation is logged after a \<open>Cluster\<close> has been dispatched in the same attempt, and at a
  head where \<open>expectCDS\<close> is false a response that decodes to a \<open>ClusterLoadAssignment\<close>
  (and is not turned away for its type URL) goes to \<open>newADS\<close>.
\<close>

theorem expectCDS_monotone:
  "(\<forall>i j. i \<le> j \<and> j < length (recv_flags um c (enableCDS c) (recvs ae))
        \<and> recv_flags um c (enableCDS c) (recvs ae) ! j
      \<longrightarrow> recv_flags um c (enableCDS c) (recvs ae) ! i)
   \<and> (decode_first um resp = Some (Cluster x) \<and> recv_body um c e resp v = Again e' evs
        \<longrightarrow> \<not> e')
   \<and> (\<forall>xs ys y b. snd (adsCallAttempt um c ae) = xs @ NewADS (Cluster y) b # ys
         \<longrightarrow> Warning ExpectingCDSGotEDS \<notin> set ys)
   \<and> (decode_first um resp = Some (ClusterLoadAssignment x)
        \<and> (typeUrl resp \<noteq> cdsType \<or> enableCDS c)
      \<longrightarrow> recv_body um c False resp v =
            (if v then Return [Recv (Some resp), NewADS (ClusterLoadAssignment x) True,
                               Warning ProcessingFailed]
             else Again False [Recv (Some resp), NewADS (ClusterLoadAssignment x) False]))"
proof -
  have mono: "\<forall>i j. i \<le> j \<and> j < length (recv_flags um c (enableCDS c) (recvs ae))
        \<and> recv_flags um c (enableCDS c) (recvs ae) ! j
      \<longrightarrow> recv_flags um c (enableCDS c) (recvs ae) ! i"
    using recv_flags_mono[of _ _ um c "enableCDS c" "recvs ae"] by blast
  have clear: "decode_first um resp = Some (Cluster x) \<and> recv_body um c e resp v = Again e' evs
        \<longrightarrow> \<not> e'"
    by (auto simp: recv_body_def decode_first_def split: if_splits)
  have after: "\<forall>xs ys y b. snd (adsCallAttempt um c ae) = xs @ NewADS (Cluster y) b # ys
         \<longrightarrow> Warning ExpectingCDSGotEDS \<notin> set ys"
    using adsCallAttempt_after_cluster[of um c ae] by blast
  have pass: "decode_first um resp = Some (ClusterLoadAssignment x)
        \<and> (typeUrl resp \<noteq> cdsType \<or> enableCDS c)
      \<longrightarrow> recv_body um c False resp v =
            (if v then Return [Recv (Some resp), NewADS (ClusterLoadAssignment x) True,
                               Warning ProcessingFailed]
             else Again False [Recv (Some resp), NewADS (ClusterLoadAssignment x) False])"
    by (auto simp: recv_body_def decode_first_def split: if_splits)
  from mono clear after pass show ?thesis by blast
qed

theorem expectCDS_monotone_witness:
  "recv_flags ex_codec (ex_client True) True
       [(ex_lds_resp, False), (ex_cds_resp, False), (ex_eds_resp, False)]
     = [True, True, False, False]
   \<and> snd (adsCallAttempt ex_codec (ex_client True)
        (ex_attempt [(ex_lds_resp, False), (ex_cds_resp, False), (ex_eds_resp, False)]))
     = [OpenStream True, Send (newCDSRequest (ex_client True)) True,
        Send (newEDSRequest (ex_client True)) True,
        Recv (Some ex_lds_resp), NewADS (OtherMessage ''l1'') False, Recv (Some ex_cds_resp)]
       @ NewADS (Cluster ''c1'') False
       # [Recv (Some ex_eds_resp), NewADS (ClusterLoadAssignment ''e1'') False, Recv None,
          CancelAttempt]
   \<and> Warning ExpectingCDSGotEDS
       \<notin> set [Recv (Some ex_eds_resp), NewADS (ClusterLoadAssignment ''e1'') False, Recv None,
              CancelAttempt]
   \<and> recv_body ex_codec (ex_client True) True ex_cds_resp False
       = Again False [Recv (Some ex_cds_resp), NewADS (Cluster ''c1'') False]
   \<and> recv_body ex_codec (ex_client True) False ex_eds_resp False
       = Again False [Recv (Some ex_eds_resp), NewADS (ClusterLoadAssignment ''e1'') False]"
proof -
  let ?c = "ex_client True"
  let ?rs = "[(ex_lds_resp, False), (ex_cds_resp, False), (ex_eds_resp, False)]"
  let ?ys = "[Recv (Some ex_eds_resp), NewADS (ClusterLoadAssignment ''e1'') False, Recv None,
              CancelAttempt]"
  have fl: "recv_flags ex_codec ?c True ?rs = [True, True, False, False]"
    by (simp add: recv_body_def ex_defs)
  have ev: "snd (adsCallAttempt ex_codec ?c (ex_attempt ?rs))
     = [OpenStream True, Send (newCDSRequest ?c) True, Send (newEDSRequest ?c) True,
        Recv (Some ex_lds_resp), NewADS (OtherMessage ''l1'') False, Recv (Some ex_cds_resp)]
       @ NewADS (Cluster ''c1'') False # ?ys"
    by (simp add: adsCallAttempt_def recv_body_def Let_def ex_defs)
  have b1: "recv_body ex_codec ?c True ex_cds_resp False
       = Again False [Recv (Some ex_cds_resp), NewADS (Cluster ''c1'') False]"
    by (simp add: recv_body_def ex_defs)
  have d: "decode_first ex_codec ex_eds_resp = Some (ClusterLoadAssignment ''e1'')"
    and t: "typeUrl ex_eds_resp \<noteq> cdsType"
    by (simp_all add: decode_first_def ex_defs)
  note inst = expectCDS_monotone[of ex_codec ?c "ex_attempt ?rs" ex_eds_resp "''e1''" False False
      False "[]"]
  from inst ev have nv: "Warning ExpectingCDSGotEDS \<notin> set ?ys" by blast
  from inst d t have b2: "recv_body ex_codec ?c False ex_eds_resp False
       = Again False [Recv (Some ex_eds_resp), NewADS (ClusterLoadAssignment ''e1'') False]"
    by simp
  from fl ev nv b1 b2 show ?thesis by blast
qed

end
